theory Spec2Isabelle
  imports Complex_Main "HOL-Library.Monad_Syntax"
begin

section \<open>Library types used by \<open>agent.cpp\<close>\<close>

text \<open>
  A \<open>double\<close> is modelled as a real number: sums and products are exact, and there is
  no infinity or NaN. \<open>std::exp\<close> is the real exponential with the underflow of the
  double one, see \<open>std_exp\<close> below.

  Every exception thrown in \<open>agent.cpp\<close> is the \<open>std::out_of_range\<close> of \<open>std::map::at\<close>.
  A \<open>const\<close> member function returns \<open>'a option\<close>, where \<open>None\<close> stands for that exception
  leaving the function. A member function that mutates the agent returns how it completed
  together with the state it leaves behind, because an exception does not undo writes.
\<close>

datatype error = out_of_range

datatype outcome = Returned | Thrown error

text \<open>A possibly null pointer to an \<open>IBehaviour\<close>; \<open>perform\<close> starts from \<open>nullptr\<close>.\<close>

datatype 'a ptr = nullptr | Ptr 'a

text \<open>
  \<open>std::map<K, V>\<close> is an association list that the operations keep ordered by key, so
  that a range-based \<open>for\<close> over the map is a traversal of the list.
  \<open>at\<close> throws on a missing key, \<open>insert_or_assign\<close> and \<open>m[k] = v\<close> insert or overwrite,
  \<open>emplace\<close> inserts only if no element with that key exists.
\<close>

type_synonym ('k, 'v) std_map = "('k \<times> 'v) list"

definition at_map :: "('k, 'v) std_map \<Rightarrow> 'k \<Rightarrow> 'v option" where
  "at_map m k = map_of m k"

fun insert_or_assign :: "'k::linorder \<Rightarrow> 'v \<Rightarrow> ('k, 'v) std_map \<Rightarrow> ('k, 'v) std_map" where
  "insert_or_assign k v [] = [(k, v)]"
| "insert_or_assign k v ((k', v') # m) =
     (if k = k' then (k, v) # m
      else if k < k' then (k, v) # (k', v') # m
      else (k', v') # insert_or_assign k v m)"

definition emplace :: "'k::linorder \<Rightarrow> 'v \<Rightarrow> ('k, 'v) std_map \<Rightarrow> ('k, 'v) std_map" where
  "emplace k v m = (if k \<in> fst ` set m then m else insert_or_assign k v m)"

text \<open>The class invariant of \<open>std::map\<close>: keys strictly increasing, hence unique.\<close>

definition map_inv :: "('k::linorder, 'v) std_map \<Rightarrow> bool" where
  "map_inv m = sorted_wrt (<) (map fst m)"

text \<open>\<open>std::numeric_limits<double>::lowest()\<close>, the most negative finite double.\<close>

definition lowest :: real where
  "lowest = - ((2 ^ 53 - 1) * 2 ^ 971)"

text \<open>
  \<open>std::exp\<close> on doubles. The smallest positive double is \<open>2^-1074\<close>; rounding to nearest
  returns \<open>0.0\<close> for every result at or below half of it, which happens once the argument
  is below about \<open>-745.13\<close>. Above that the value is the real exponential: the rounding
  of larger results and the overflow to infinity are not modelled.
\<close>

definition std_exp :: "real \<Rightarrow> real" where
  "std_exp x = (if exp x \<le> 1 / 2 ^ 1075 then 0 else exp x)"

section \<open>Collaborators\<close>

text \<open>
  The three relationship tables of \<open>IBelief\<close> (\<open>bibs/belief.hpp\<close>) are consumed through
  its virtual getters only. They are parameters of the model: each getter returns the
  weight or throws \<open>std::out_of_range\<close>. The first argument is the belief the getter is
  called on.
\<close>

record ('bel, 'beh) beliefs =
  beliefRelationship :: "'bel \<Rightarrow> 'bel \<Rightarrow> real option"
  observedBehaviourRelationship :: "'bel \<Rightarrow> 'beh ptr \<Rightarrow> real option"
  performingBehaviourRelationship :: "'bel \<Rightarrow> 'beh ptr \<Rightarrow> real option"

section \<open>The class \<open>Agent\<close>\<close>

text \<open>
  The four private maps of \<open>Agent\<close>. \<open>'t\<close> is \<open>sim_time_t\<close> (declared in \<open>bibs/bibs.hpp\<close>),
  any ordered type with \<open>t - 1\<close>; \<open>'bel\<close> and \<open>'ag\<close> are the addresses of beliefs and agents.
\<close>

record ('t, 'bel, 'beh, 'ag) Agent =
  activationMap :: "('t, ('bel, real) std_map) std_map"
  performedMap :: "('t, 'beh ptr) std_map"
  friends :: "('ag, real) std_map"
  timeDeltaMap :: "('bel, real) std_map"

text \<open>
  Agents refer to each other by pointer (the keys of \<open>friends\<close>), and an agent may be its
  own friend. The store maps every agent address to the object that lives there.
\<close>

type_synonym ('t, 'bel, 'beh, 'ag) store = "'ag \<Rightarrow> ('t, 'bel, 'beh, 'ag) Agent"

text \<open>The constructors: \<open>Agent()\<close> and \<open>Agent(activationMap)\<close>; the other maps start empty.\<close>

definition Agent_new :: "('t, ('bel, real) std_map) std_map \<Rightarrow> ('t, 'bel, 'beh, 'ag) Agent" where
  "Agent_new am = \<lparr>activationMap = am, performedMap = [], friends = [], timeDeltaMap = []\<rparr>"

subsection \<open>Getters and setters\<close>

definition activation :: "('t, 'bel, 'beh, 'ag) Agent \<Rightarrow> 't \<Rightarrow> 'bel \<Rightarrow> real option" where
  "activation this t b = do { m \<leftarrow> at_map (activationMap this) t; at_map m b }"

definition performed :: "('t, 'bel, 'beh, 'ag) Agent \<Rightarrow> 't \<Rightarrow> 'beh ptr option" where
  "performed this t = at_map (performedMap this) t"


definition friendWeight :: "('t, 'bel, 'beh, 'ag) Agent \<Rightarrow> 'ag \<Rightarrow> real option" where
  "friendWeight this a = at_map (friends this) a"

definition setFriendWeight ::
  "('t, 'bel, 'beh, 'ag::linorder) Agent \<Rightarrow> 'ag \<Rightarrow> real \<Rightarrow> ('t, 'bel, 'beh, 'ag) Agent" where
  "setFriendWeight this a w = this\<lparr>friends := insert_or_assign a w (friends this)\<rparr>"

definition timeDelta :: "('t, 'bel, 'beh, 'ag) Agent \<Rightarrow> 'bel \<Rightarrow> real option" where
  "timeDelta this b = at_map (timeDeltaMap this) b"

definition setTimeDelta ::
  "('t, 'bel::linorder, 'beh, 'ag) Agent \<Rightarrow> 'bel \<Rightarrow> real \<Rightarrow> ('t, 'bel, 'beh, 'ag) Agent" where
  "setTimeDelta this b td = this\<lparr>timeDeltaMap := insert_or_assign b td (timeDeltaMap this)\<rparr>"

subsection \<open>The activation engine\<close>

text \<open>
  \<open>observed\<close>: the loop over \<open>friends\<close>, with the accumulator \<open>ret_value\<close>. The friend's
  \<open>performed(t)\<close> is read through the store.
\<close>

fun observed_loop ::
  "('bel, 'beh) beliefs \<Rightarrow> ('t, 'bel, 'beh, 'ag) store \<Rightarrow> 'bel \<Rightarrow> 't \<Rightarrow>
     ('ag, real) std_map \<Rightarrow> real \<Rightarrow> real option" where
  "observed_loop R h b t [] ret_value = Some ret_value"
| "observed_loop R h b t ((a, w) # fs) ret_value =
     do { beh \<leftarrow> performed (h a) t;
          r \<leftarrow> observedBehaviourRelationship R b beh;
          observed_loop R h b t fs (ret_value + w * r) }"

definition observed ::
  "('bel, 'beh) beliefs \<Rightarrow> ('t, 'bel, 'beh, 'ag) store \<Rightarrow> 'ag \<Rightarrow> 'bel \<Rightarrow> 't \<Rightarrow> real option" where
  "observed R h self b t = observed_loop R h b t (friends (h self)) 0"

definition heldBeliefs :: "('t, 'bel, 'beh, 'ag) Agent \<Rightarrow> 't \<Rightarrow> 'bel list option" where
  "heldBeliefs this t = do { m \<leftarrow> at_map (activationMap this) t; Some (map fst m) }"

fun contextualise_loop ::
  "('bel, 'beh) beliefs \<Rightarrow> ('t, 'bel, 'beh, 'ag) Agent \<Rightarrow> 'bel \<Rightarrow> 't \<Rightarrow>
     'bel list \<Rightarrow> real \<Rightarrow> real option" where
  "contextualise_loop R this b t [] value_to_exp = Some value_to_exp"
| "contextualise_loop R this b t (b2 # bs) value_to_exp =
     do { a \<leftarrow> activation this t b2;
          r \<leftarrow> beliefRelationship R b b2;
          contextualise_loop R this b t bs (value_to_exp + a * r) }"

definition contextualise ::
  "('bel, 'beh) beliefs \<Rightarrow> ('t, 'bel, 'beh, 'ag) Agent \<Rightarrow> 'bel \<Rightarrow> 't \<Rightarrow> real option" where
  "contextualise R this b t =
     do { bs \<leftarrow> heldBeliefs this t;
          value_to_exp \<leftarrow> contextualise_loop R this b t bs 0;
          Some (std_exp value_to_exp) }"

definition contextualObserved ::
  "('bel, 'beh) beliefs \<Rightarrow> ('t, 'bel, 'beh, 'ag) store \<Rightarrow> 'ag \<Rightarrow> 'bel \<Rightarrow> 't \<Rightarrow> real option" where
  "contextualObserved R h self b t =
     do { c \<leftarrow> contextualise R (h self) b t;
          ob \<leftarrow> observed R h self b t;
          Some (c * ob) }"

text \<open>
  \<open>updateActivation\<close>: \<open>newActivation\<close> is computed first; an exception there leaves the
  agent as it was. Then \<open>activationMap.at(t).emplace(b, newActivation)\<close>, and in the
  handler of the \<open>out_of_range\<close> of \<open>at(t)\<close> the sub-map for \<open>t\<close> is created and the
  \<open>emplace\<close> repeated.
\<close>

definition updateActivation ::
  "('bel::linorder, 'beh) beliefs \<Rightarrow> ('t::{linorder,minus,one}, 'bel, 'beh, 'ag) store \<Rightarrow>
     'ag \<Rightarrow> 't \<Rightarrow> 'bel \<Rightarrow> outcome \<times> ('t, 'bel, 'beh, 'ag) store" where
  "updateActivation R h self t b =
     (case do { td \<leftarrow> timeDelta (h self) b;
                a \<leftarrow> activation (h self) (t - 1) b;
                co \<leftarrow> contextualObserved R h self b (t - 1);
                Some (td * a + co) } of
        None \<Rightarrow> (Thrown out_of_range, h)
      | Some newActivation \<Rightarrow>
          (case at_map (activationMap (h self)) t of
             Some m \<Rightarrow>
               (Returned, h(self := (h self)\<lparr>activationMap :=
                  insert_or_assign t (emplace b newActivation m) (activationMap (h self))\<rparr>))
           | None \<Rightarrow>
               (let am = emplace t [] (activationMap (h self)) in
                (case at_map am t of
                   None \<Rightarrow> (Thrown out_of_range, h(self := (h self)\<lparr>activationMap := am\<rparr>))
                 | Some m \<Rightarrow>
                     (Returned, h(self := (h self)\<lparr>activationMap :=
                        insert_or_assign t (emplace b newActivation m) am\<rparr>))))))"

subsection \<open>The utility and selection engine\<close>

definition beliefBehaviour ::
  "('bel, 'beh) beliefs \<Rightarrow> ('t, 'bel, 'beh, 'ag) Agent \<Rightarrow> 'bel \<Rightarrow> 'beh ptr \<Rightarrow> 't \<Rightarrow> real option" where
  "beliefBehaviour R this bel beh t =
     do { p \<leftarrow> performingBehaviourRelationship R bel beh;
          a \<leftarrow> activation this t bel;
          Some (p * a) }"

definition contextualBeliefBehaviour ::
  "('bel, 'beh) beliefs \<Rightarrow> ('t, 'bel, 'beh, 'ag) Agent \<Rightarrow> 'bel \<Rightarrow> 'beh ptr \<Rightarrow> 't \<Rightarrow> real option" where
  "contextualBeliefBehaviour R this bel beh t =
     do { c \<leftarrow> contextualise R this bel t;
          bb \<leftarrow> beliefBehaviour R this bel beh t;
          Some (c * bb) }"

fun contextualBehaviour_loop ::
  "('bel, 'beh) beliefs \<Rightarrow> ('t, 'bel, 'beh, 'ag) Agent \<Rightarrow> 'beh ptr \<Rightarrow> 't \<Rightarrow>
     ('bel, real) std_map \<Rightarrow> real \<Rightarrow> real option" where
  "contextualBehaviour_loop R this b t [] returnVal = Some returnVal"
| "contextualBehaviour_loop R this b t ((belief, _) # m) returnVal =
     do { cbb \<leftarrow> contextualBeliefBehaviour R this belief b t;
          contextualBehaviour_loop R this b t m (returnVal + cbb) }"

definition contextualBehaviour ::
  "('bel, 'beh) beliefs \<Rightarrow> ('t, 'bel, 'beh, 'ag) Agent \<Rightarrow> 'beh ptr \<Rightarrow> 't \<Rightarrow> real option" where
  "contextualBehaviour R this b t =
     do { m \<leftarrow> at_map (activationMap this) t;
          contextualBehaviour_loop R this b t m 0 }"

definition environment :: "('t, 'bel, 'beh, 'ag) Agent \<Rightarrow> 'beh ptr \<Rightarrow> 't \<Rightarrow> real" where
  "environment this b t = 0"

definition utility ::
  "('bel, 'beh) beliefs \<Rightarrow> ('t, 'bel, 'beh, 'ag) Agent \<Rightarrow> 'beh ptr \<Rightarrow> 't \<Rightarrow> real option" where
  "utility R this b t =
     do { cb \<leftarrow> contextualBehaviour R this b t;
          Some (cb + environment this b t) }"

text \<open>
  The local variables of \<open>perform\<close> that the loop over the candidates updates.
\<close>

record 'beh perform_vars =
  maxUtility :: real
  maxBehaviour :: "'beh ptr"
  positiveBehaviours :: "'beh ptr list"
  positiveUtilities :: "real list"

fun perform_loop ::
  "('bel, 'beh) beliefs \<Rightarrow> ('t, 'bel, 'beh, 'ag) Agent \<Rightarrow> 't \<Rightarrow> 'beh ptr list \<Rightarrow>
     'beh perform_vars \<Rightarrow> 'beh perform_vars option" where
  "perform_loop R this t [] vs = Some vs"
| "perform_loop R this t (b # bs) vs =
     do { ut \<leftarrow> utility R this b t;
          let vs1 = (if ut > maxUtility vs
                     then vs\<lparr>maxUtility := ut, maxBehaviour := b\<rparr> else vs);
          let vs2 = (if ut > 0
                     then vs1\<lparr>positiveBehaviours := positiveBehaviours vs1 @ [b],
                              positiveUtilities := positiveUtilities vs1 @ [ut]\<rparr>
                     else vs1);
          perform_loop R this t bs vs2 }"

text \<open>
  \<open>perform\<close>. The argument \<open>draw\<close> stands for \<open>dist(eng)\<close>, the draw of the
  \<open>std::discrete_distribution\<close> built from \<open>positiveUtilities\<close>: the index it returns,
  which the library keeps below the number of weights. \<open>performedMap[t] = x\<close> inserts or
  overwrites.
\<close>

definition perform ::
  "(real list \<Rightarrow> nat) \<Rightarrow> ('bel, 'beh) beliefs \<Rightarrow> ('t::linorder, 'bel, 'beh, 'ag) store \<Rightarrow>
     'ag \<Rightarrow> 't \<Rightarrow> 'beh ptr list \<Rightarrow> outcome \<times> ('t, 'bel, 'beh, 'ag) store" where
  "perform draw R h self t bs =
     (case perform_loop R (h self) t bs
             \<lparr>maxUtility = lowest, maxBehaviour = nullptr,
              positiveBehaviours = [], positiveUtilities = []\<rparr> of
        None \<Rightarrow> (Thrown out_of_range, h)
      | Some vs \<Rightarrow>
          if length (positiveUtilities vs) \<le> 1
          then (Returned, h(self := (h self)\<lparr>performedMap :=
                  insert_or_assign t (maxBehaviour vs) (performedMap (h self))\<rparr>))
          else (Returned, h(self := (h self)\<lparr>performedMap :=
                  insert_or_assign t (positiveBehaviours vs ! draw (positiveUtilities vs))
                    (performedMap (h self))\<rparr>)))"

subsection \<open>The tick orchestrator\<close>

text \<open>The \<open>for\<close> loop of \<open>IAgent::tick\<close>: an exception leaves the loop and \<open>tick\<close>.\<close>

fun tick_loop ::
  "('bel::linorder, 'beh) beliefs \<Rightarrow> ('t::{linorder,minus,one}, 'bel, 'beh, 'ag) store \<Rightarrow>
     'ag \<Rightarrow> 't \<Rightarrow> 'bel list \<Rightarrow> outcome \<times> ('t, 'bel, 'beh, 'ag) store" where
  "tick_loop R h self t [] = (Returned, h)"
| "tick_loop R h self t (bel # bels) =
     (case updateActivation R h self t bel of
        (Thrown e, h') \<Rightarrow> (Thrown e, h')
      | (Returned, h') \<Rightarrow> tick_loop R h' self t bels)"

definition tick ::
  "(real list \<Rightarrow> nat) \<Rightarrow> ('bel::linorder, 'beh) beliefs \<Rightarrow>
     ('t::{linorder,minus,one}, 'bel, 'beh, 'ag) store \<Rightarrow>
     'ag \<Rightarrow> 't \<Rightarrow> 'beh ptr list \<Rightarrow> 'bel list \<Rightarrow> outcome \<times> ('t, 'bel, 'beh, 'ag) store" where
  "tick draw R h self t behs bels =
     (case tick_loop R h self t bels of
        (Thrown e, h') \<Rightarrow> (Thrown e, h')
      | (Returned, h') \<Rightarrow> perform draw R h' self t behs)"

section \<open>Sequences of calls\<close>









section \<open>Concrete agents\<close>

text \<open>
  Small concrete configurations on which the theorems below are evaluated. Times are
  integers; beliefs, behaviours and agents are numbered.
\<close>

definition rel3 :: "(nat, nat) beliefs" where
  "rel3 = \<lparr>beliefRelationship = (\<lambda>b b2. Some 3),
           observedBehaviourRelationship = (\<lambda>b beh. Some 4),
           performingBehaviourRelationship = (\<lambda>b beh. Some 5)\<rparr>"

definition agent1 :: "(int, nat, nat, nat) Agent" where
  "agent1 = \<lparr>activationMap = [(0, [(1, 2)])], performedMap = [],
             friends = [], timeDeltaMap = []\<rparr>"

definition rel0 :: "(nat, nat) beliefs" where
  "rel0 = \<lparr>beliefRelationship = (\<lambda>b b2. Some 0),
           observedBehaviourRelationship = (\<lambda>b beh. Some 4),
           performingBehaviourRelationship =
             (\<lambda>b beh. if beh = nullptr then None else if beh = Ptr 1 then Some 3 else Some (- 1))\<rparr>"

definition rel_unit :: "(nat, nat) beliefs" where
  "rel_unit = \<lparr>beliefRelationship = (\<lambda>b b2. Some 0),
               observedBehaviourRelationship = (\<lambda>b beh. Some 0),
               performingBehaviourRelationship = (\<lambda>b beh. Some 1)\<rparr>"



definition agent_low :: "(int, nat, nat, nat) Agent" where
  "agent_low = \<lparr>activationMap = [(0, [(1, lowest)])], performedMap = [],
                friends = [], timeDeltaMap = []\<rparr>"

definition agent2 :: "(int, nat, nat, nat) Agent" where
  "agent2 = \<lparr>activationMap = [(0, [(1, 1)]), (1, [(1, 5)])], performedMap = [(0, Ptr 2)],
             friends = [(1, 3)], timeDeltaMap = [(1, 2)]\<rparr>"

definition agent3 :: "(int, nat, nat, nat) Agent" where
  "agent3 = \<lparr>activationMap = [(0, [(1, 1)]), (1, [(1, 5)])], performedMap = [],
             friends = [], timeDeltaMap = [(1, 2)]\<rparr>"

definition agent4 :: "(int, nat, nat, nat) Agent" where
  "agent4 = \<lparr>activationMap = [(0, [(1, 2)])], performedMap = [],
             friends = [], timeDeltaMap = [(1, 2)]\<rparr>"

text \<open>A store that holds a copy of the same agent at every address.\<close>

definition uniform_store :: "(int, nat, nat, nat) Agent \<Rightarrow> (int, nat, nat, nat) store" where
  "uniform_store ag = (\<lambda>a. ag)"

definition no_agents :: "(int, nat, nat, nat) store" where
  "no_agents = uniform_store (Agent_new [])"

text \<open>A sampler that always draws index 0.\<close>

definition first_draw :: "real list \<Rightarrow> nat" where
  "first_draw ws = 0"

section \<open>Facts about \<open>std::exp\<close>\<close>

lemma std_exp_0: "std_exp 0 = 1"
  by (simp add: std_exp_def)






section \<open>Facts about \<open>std::map\<close>\<close>

lemma at_insert_or_assign:
  "at_map (insert_or_assign k v m) k' = (if k' = k then Some v else at_map m k')"
  by (induction m) (auto simp: at_map_def)

lemma insert_or_assign_twice:
  "insert_or_assign k v2 (insert_or_assign k v1 m) = insert_or_assign k v2 m"
  by (induction m) auto

lemma at_emplace:
  "at_map (emplace k v m) k' =
     (if k' = k \<and> at_map m k = None then Some v else at_map m k')"
proof (cases "k \<in> fst ` set m")
  case True
  then have "at_map m k \<noteq> None" by (simp add: at_map_def map_of_eq_None_iff)
  with True show ?thesis by (simp add: emplace_def)
next
  case False
  then have "at_map m k = None" by (simp add: at_map_def map_of_eq_None_iff)
  with False show ?thesis by (simp add: emplace_def at_insert_or_assign)
qed

lemma keys_insert_or_assign:
  "fst ` set (insert_or_assign k v m) = insert k (fst ` set m)"
proof (induction m)
  case Nil
  show ?case by simp
next
  case (Cons p m)
  obtain k' v' where p: "p = (k', v')" by (cases p)
  from Cons.IH show ?case by (simp add: p insert_commute)
qed

lemma map_inv_insert_or_assign:
  "map_inv m \<Longrightarrow> map_inv (insert_or_assign k v m)"
proof (induction m)
  case Nil
  then show ?case by (simp add: map_inv_def)
next
  case (Cons p m)
  obtain k' v' where p: "p = (k', v')" by (cases p)
  from Cons.prems have tl: "map_inv m" and hd: "\<forall>x \<in> fst ` set m. k' < x"
    by (auto simp: map_inv_def p)
  show ?case
  proof (cases "k = k'")
    case True
    with Cons.prems show ?thesis by (simp add: map_inv_def p)
  next
    case False
    show ?thesis
    proof (cases "k < k'")
      case True
      with Cons.prems show ?thesis by (auto simp: map_inv_def p)
    next
      case nlt: False
      with False have "k' < k" by simp
      with hd have "\<forall>x \<in> fst ` set (insert_or_assign k v m). k' < x"
        by (simp add: keys_insert_or_assign)
      with Cons.IH [OF tl] False nlt show ?thesis
        by (simp add: map_inv_def p)
    qed
  qed
qed

lemma map_inv_emplace: "map_inv m \<Longrightarrow> map_inv (emplace k v m)"
  by (simp add: emplace_def map_inv_insert_or_assign)

lemma map_inv_distinct: "map_inv m \<Longrightarrow> distinct (map fst m)"
  by (simp add: map_inv_def strict_sorted_iff)


section \<open>Setters and getters\<close>

text \<open>
  Claim C9. After \<open>setFriendWeight(a, w1)\<close>, \<open>friendWeight(a)\<close> returns exactly \<open>w1\<close>; a
  later \<open>setFriendWeight(a, w2)\<close> overwrites it, so that \<open>friendWeight(a)\<close> returns \<open>w2\<close>
  and the agent is the one that a single \<open>setFriendWeight(a, w2)\<close> would have produced.
  The same holds for \<open>setTimeDelta\<close> followed by \<open>timeDelta\<close>.
\<close>

theorem set_get_roundtrip:
  "friendWeight (setFriendWeight this a w1) a = Some w1 \<and>
   friendWeight (setFriendWeight (setFriendWeight this a w1) a w2) a = Some w2 \<and>
   setFriendWeight (setFriendWeight this a w1) a w2 = setFriendWeight this a w2 \<and>
   timeDelta (setTimeDelta this' b w1) b = Some w1 \<and>
   timeDelta (setTimeDelta (setTimeDelta this' b w1) b w2) b = Some w2 \<and>
   setTimeDelta (setTimeDelta this' b w1) b w2 = setTimeDelta this' b w2"
  by (simp add: friendWeight_def setFriendWeight_def timeDelta_def setTimeDelta_def
      at_insert_or_assign insert_or_assign_twice)


section \<open>Failure of \<open>updateActivation\<close>\<close>

lemma updateActivation_Thrown_state:
  "fst (updateActivation R h self t b) = Thrown e \<Longrightarrow> snd (updateActivation R h self t b) = h"
  by (auto simp: updateActivation_def Let_def at_emplace split: option.splits)

text \<open>
  Claim C6. If \<open>updateActivation(t, b)\<close> throws \<open>std::out_of_range\<close>, whichever lookup was
  missing, the agent is after the call what it was before: its activation record, and
  every other agent in the store, are unchanged.
\<close>

theorem updateActivation_failure_no_mutation:
  "fst (updateActivation R h self t b) = Thrown e \<Longrightarrow> snd (updateActivation R h self t b) = h"
  by (rule updateActivation_Thrown_state)

theorem updateActivation_failure_no_mutation_witness:
  "fst (updateActivation rel3 no_agents 0 1 1) = Thrown out_of_range \<and>
   snd (updateActivation rel3 no_agents 0 1 1) = no_agents"
proof -
  have h: "fst (updateActivation rel3 no_agents 0 1 1) = Thrown out_of_range"
    by (simp add: updateActivation_def timeDelta_def no_agents_def uniform_store_def
        Agent_new_def at_map_def)
  from h updateActivation_failure_no_mutation [OF h] show ?thesis by simp
qed

section \<open>Contextualisation\<close>

lemma at_map_key: "k \<in> fst ` set m \<Longrightarrow> at_map m k \<noteq> None"
  by (simp add: at_map_def map_of_eq_None_iff)






section \<open>Utility\<close>

lemma contextualBehaviour_loop_Some:
  assumes "\<forall>bel \<in> fst ` set m. contextualBeliefBehaviour R this bel beh t \<noteq> None"
  shows "contextualBehaviour_loop R this beh t m acc =
           Some (acc + (\<Sum>bel\<leftarrow>map fst m. the (contextualBeliefBehaviour R this bel beh t)))"
  using assms by (induction m arbitrary: acc) (auto simp: algebra_simps)

lemma contextualBehaviour_loop_None:
  assumes "\<exists>bel \<in> fst ` set m. contextualBeliefBehaviour R this bel beh t = None"
  shows "contextualBehaviour_loop R this beh t m acc = None"
  using assms
proof (induction m arbitrary: acc)
  case Nil
  then show ?case by simp
next
  case (Cons x m)
  obtain bel v where x: "x = (bel, v)" by (cases x)
  show ?case
  proof (cases "contextualBeliefBehaviour R this bel beh t")
    case None
    then show ?thesis by (simp add: x)
  next
    case (Some c)
    with Cons.prems have "\<exists>bel \<in> fst ` set m. contextualBeliefBehaviour R this bel beh t = None"
      by (auto simp: x)
    from Cons.IH [OF this] Some show ?thesis by (simp add: x)
  qed
qed

text \<open>
  Claim C4. When the activation record has an entry for \<open>t\<close> (the agent holds zero or more
  beliefs) and every held belief defines a performing-relationship weight \<open>p bel\<close> for
  \<open>beh\<close>: \<open>environment(beh, t)\<close> is 0; the activation of every held belief is defined;
  and \<open>utility(beh, t)\<close> is the sum over the held beliefs of
  \<open>contextualise(bel, t) * p bel * activation(t, bel)\<close>, plus \<open>environment(beh, t)\<close>. The sum
  is a number when every \<open>contextualise(bel, t)\<close> is; when one of them throws, so does
  \<open>utility\<close>.
\<close>

theorem utility_is_sum:
  assumes "at_map (activationMap this) t = Some m"
    and "\<forall>bel \<in> fst ` set m. performingBehaviourRelationship R bel beh = Some (p bel)"
  shows "environment this beh t = 0 \<and>
         (\<forall>bel \<in> fst ` set m. \<exists>a. activation this t bel = Some a) \<and>
         ((\<forall>bel \<in> fst ` set m. contextualise R this bel t \<noteq> None) \<longrightarrow>
            utility R this beh t =
              Some ((\<Sum>bel\<leftarrow>map fst m.
                       the (contextualise R this bel t) * p bel * the (activation this t bel))
                    + environment this beh t)) \<and>
         ((\<exists>bel \<in> fst ` set m. contextualise R this bel t = None) \<longrightarrow>
            utility R this beh t = None)"
proof -
  have act: "activation this t bel = at_map m bel" for bel
    by (simp add: activation_def assms(1))
  have held: "\<forall>bel \<in> fst ` set m. \<exists>a. activation this t bel = Some a"
    using at_map_key [of _ m] by (auto simp: act)
  have cbb: "contextualBeliefBehaviour R this bel beh t =
               (case contextualise R this bel t of None \<Rightarrow> None
                | Some c \<Rightarrow> Some (c * (p bel * the (activation this t bel))))"
    if "bel \<in> fst ` set m" for bel
    using that assms(2) held
    by (fastforce simp: contextualBeliefBehaviour_def beliefBehaviour_def split: option.splits)
  have ok: "utility R this beh t =
              Some ((\<Sum>bel\<leftarrow>map fst m.
                       the (contextualise R this bel t) * p bel * the (activation this t bel))
                    + environment this beh t)"
    if all: "\<forall>bel \<in> fst ` set m. contextualise R this bel t \<noteq> None"
  proof -
    have def: "\<forall>bel \<in> fst ` set m. contextualBeliefBehaviour R this bel beh t \<noteq> None"
      using all cbb by (auto split: option.splits)
    have "map (\<lambda>bel. the (contextualBeliefBehaviour R this bel beh t)) (map fst m) =
          map (\<lambda>bel. the (contextualise R this bel t) * p bel * the (activation this t bel))
            (map fst m)"
      using all cbb by (auto simp: mult.assoc split: option.splits)
    then have "(\<Sum>bel\<leftarrow>map fst m. the (contextualBeliefBehaviour R this bel beh t)) =
          (\<Sum>bel\<leftarrow>map fst m.
             the (contextualise R this bel t) * p bel * the (activation this t bel))"
      by (rule arg_cong)
    with contextualBehaviour_loop_Some [OF def, of 0]
    show ?thesis
      by (simp only: utility_def contextualBehaviour_def assms(1) bind.bind_lunit add_0)
  qed
  have bad: "utility R this beh t = None"
    if "\<exists>bel \<in> fst ` set m. contextualise R this bel t = None"
  proof -
    from that cbb have "\<exists>bel \<in> fst ` set m. contextualBeliefBehaviour R this bel beh t = None"
      by force
    from contextualBehaviour_loop_None [OF this]
    show ?thesis by (simp add: utility_def contextualBehaviour_def assms(1))
  qed
  show ?thesis using held ok bad by (simp add: environment_def)
qed

theorem utility_is_sum_witness:
  "at_map (activationMap agent1) 0 = Some [(1, 2)] \<and>
   performingBehaviourRelationship rel3 1 (Ptr 7) = Some 5 \<and>
   contextualise rel3 agent1 1 0 = Some (std_exp 6) \<and>
   activation agent1 0 1 = Some 2 \<and>
   utility rel3 agent1 (Ptr 7) 0 = Some (std_exp 6 * 5 * 2)"
proof -
  have h1: "at_map (activationMap agent1) 0 = Some [(1, 2)]"
    by (simp add: agent1_def at_map_def)
  have h2: "\<forall>bel \<in> fst ` set [(1::nat, 2::real)].
              performingBehaviourRelationship rel3 bel (Ptr 7) = Some ((\<lambda>_. 5) bel)"
    by (simp add: rel3_def)
  have c: "contextualise rel3 agent1 1 0 = Some (std_exp 6)"
    by (simp add: contextualise_def heldBeliefs_def activation_def agent1_def at_map_def rel3_def)
  have a: "activation agent1 0 1 = Some 2"
    by (simp add: activation_def agent1_def at_map_def)
  from utility_is_sum [OF h1 h2] c a h1 show ?thesis
    by (simp add: environment_def rel3_def)
qed

section \<open>What \<open>updateActivation\<close> stores\<close>

lemma updateActivation_performedMap:
  "performedMap (snd (updateActivation R h self t b) a) = performedMap (h a)"
  by (auto simp: updateActivation_def Let_def split: option.splits)

lemma observed_loop_Some:
  assumes "\<forall>(a, w) \<in> set fs. \<exists>beh. performed (h a) t = Some beh \<and>
             observedBehaviourRelationship R b beh \<noteq> None"
  shows "observed_loop R h b t fs acc =
           Some (acc + (\<Sum>(a, w)\<leftarrow>fs.
                   w * the (observedBehaviourRelationship R b (the (performed (h a) t)))))"
  using assms by (induction fs arbitrary: acc) (auto simp: algebra_simps)

text \<open>
  When every lookup succeeds, \<open>updateActivation(t, b)\<close> returns, and afterwards
  \<open>activation(t, b)\<close> is the new value if the record had no entry for \<open>(t, b)\<close>, and the
  entry it already had otherwise: \<open>emplace\<close> does not overwrite.
\<close>

lemma updateActivation_stored_value:
  assumes "timeDelta (h self) b = Some td"
    and "activation (h self) (t - 1) b = Some a"
    and "contextualise R (h self) b (t - 1) = Some c"
    and "observed R h self b (t - 1) = Some ob"
  shows "fst (updateActivation R h self t b) = Returned \<and>
         activation (snd (updateActivation R h self t b) self) t b =
           Some (case activation (h self) t b of
                   None \<Rightarrow> td * a + c * ob
                 | Some old \<Rightarrow> old)"
proof (cases "at_map (activationMap (h self)) t")
  case None
  have nil: "at_map [] b = None" by (simp add: at_map_def)
  from None show ?thesis
    using assms
    by (simp add: updateActivation_def contextualObserved_def Let_def at_emplace
        at_insert_or_assign activation_def nil)
next
  case (Some m)
  then show ?thesis
    using assms
    by (cases "at_map m b")
       (simp_all add: updateActivation_def contextualObserved_def at_emplace
          at_insert_or_assign activation_def)
qed

text \<open>
  Claim C1. With \<open>timeDelta(b)\<close>, \<open>activation(t-1, b)\<close>, the friend's \<open>performed(t-1)\<close> and the
  relationship entries all defined, \<open>updateActivation(t, b)\<close> should store
  \<open>timeDelta(b) * activation(t-1, b) + contextualise(b, t-1) * observed(b, t-1)\<close>, here
  \<open>2 * 1 + 1 * 12 = 14\<close>. The record already holds 5 at \<open>(t, b) = (1, 1)\<close>; the call
  returns and the record still holds 5.
\<close>

theorem updateActivation_keeps_existing_value:
  "timeDelta agent2 1 = Some 2 \<and>
   activation agent2 0 1 = Some 1 \<and>
   contextualise rel0 agent2 1 0 = Some 1 \<and>
   observed rel0 (uniform_store agent2) 0 1 0 = Some 12 \<and>
   activation agent2 1 1 = Some 5 \<and>
   fst (updateActivation rel0 (uniform_store agent2) 0 1 1) = Returned \<and>
   activation (snd (updateActivation rel0 (uniform_store agent2) 0 1 1) 0) 1 1 = Some 5"
  by (simp add: updateActivation_def contextualObserved_def contextualise_def heldBeliefs_def
      observed_def performed_def timeDelta_def activation_def emplace_def
      agent2_def rel0_def at_map_def uniform_store_def std_exp_0)

text \<open>
  Claim C2. A successful \<open>updateActivation(t, b)\<close> on a record that already has a value
  for \<open>(t, b)\<close> should overwrite it with the recomputed one. For \<open>agent3\<close> the recomputed
  value is \<open>2 * 1 + 1 * 0 = 2\<close> and the record holds 5: the call returns and leaves the
  whole store as it was. For \<open>agent4\<close>, whose record has no entry at time 1, the same call
  stores \<open>2 * 2 + 1 * 0 = 4\<close>.
\<close>

theorem updateActivation_no_overwrite:
  "activation agent3 1 1 = Some 5 \<and>
   updateActivation rel0 (uniform_store agent3) 0 1 1 = (Returned, uniform_store agent3) \<and>
   updateActivation rel0 (uniform_store agent4) 0 1 1 =
     (Returned, (uniform_store agent4)
        (0 := agent4\<lparr>activationMap := [(0, [(1, 2)]), (1, [(1, 4)])]\<rparr>))"
  by (simp add: updateActivation_def contextualObserved_def contextualise_def heldBeliefs_def
      observed_def performed_def timeDelta_def activation_def emplace_def
      agent3_def agent4_def rel0_def at_map_def fun_eq_iff uniform_store_def std_exp_0)

section \<open>Selection of the performed behaviour\<close>

lemma lowest_negative: "lowest < 0"
  by (simp add: lowest_def)

lemma perform_loop_positive:
  assumes "\<forall>b \<in> set bs. utility R this b t = Some (u b)"
  shows "\<exists>vs'. perform_loop R this t bs vs = Some vs' \<and>
           positiveBehaviours vs' = positiveBehaviours vs @ filter (\<lambda>b. 0 < u b) bs \<and>
           positiveUtilities vs' = positiveUtilities vs @ map u (filter (\<lambda>b. 0 < u b) bs)"
  using assms
proof (induction bs arbitrary: vs)
  case Nil
  show ?case by simp
next
  case (Cons b bs)
  let ?vs1 = "if u b > maxUtility vs then vs\<lparr>maxUtility := u b, maxBehaviour := b\<rparr> else vs"
  let ?vs2 = "if u b > 0
              then ?vs1\<lparr>positiveBehaviours := positiveBehaviours ?vs1 @ [b],
                        positiveUtilities := positiveUtilities ?vs1 @ [u b]\<rparr>
              else ?vs1"
  from Cons.prems have ub: "utility R this b t = Some (u b)"
    and rest: "\<forall>b \<in> set bs. utility R this b t = Some (u b)" by simp_all
  from Cons.IH [OF rest, of ?vs2]
  obtain vs' where l: "perform_loop R this t bs ?vs2 = Some vs'"
    and pb: "positiveBehaviours vs' = positiveBehaviours ?vs2 @ filter (\<lambda>b. 0 < u b) bs"
    and pu: "positiveUtilities vs' = positiveUtilities ?vs2 @ map u (filter (\<lambda>b. 0 < u b) bs)"
    by blast
  have "perform_loop R this t (b # bs) vs = Some vs'"
    using l ub by (simp add: Let_def)
  moreover have "positiveBehaviours vs' = positiveBehaviours vs @ filter (\<lambda>b. 0 < u b) (b # bs)"
    using pb by simp
  moreover have "positiveUtilities vs' =
                   positiveUtilities vs @ map u (filter (\<lambda>b. 0 < u b) (b # bs))"
    using pu by simp
  ultimately show ?case by blast
qed

lemma perform_loop_max:
  assumes "\<forall>b \<in> set bs. utility R this b t = Some (u b)"
    and "perform_loop R this t bs vs = Some vs'"
  shows "if \<forall>b \<in> set bs. u b \<le> maxUtility vs
         then maxUtility vs' = maxUtility vs \<and> maxBehaviour vs' = maxBehaviour vs
         else \<exists>i<length bs. maxBehaviour vs' = bs ! i \<and> maxUtility vs' = u (bs ! i) \<and>
                maxUtility vs < u (bs ! i) \<and>
                (\<forall>j<length bs. u (bs ! j) \<le> u (bs ! i)) \<and> (\<forall>j<i. u (bs ! j) < u (bs ! i))"
  using assms
proof (induction bs arbitrary: vs)
  case Nil
  then show ?case by simp
next
  case (Cons b bs)
  let ?vs1 = "if u b > maxUtility vs then vs\<lparr>maxUtility := u b, maxBehaviour := b\<rparr> else vs"
  let ?vs2 = "if u b > 0
              then ?vs1\<lparr>positiveBehaviours := positiveBehaviours ?vs1 @ [b],
                        positiveUtilities := positiveUtilities ?vs1 @ [u b]\<rparr>
              else ?vs1"
  from Cons.prems have ub: "utility R this b t = Some (u b)"
    and rest: "\<forall>b \<in> set bs. utility R this b t = Some (u b)" by simp_all
  from Cons.prems(2) ub have loop: "perform_loop R this t bs ?vs2 = Some vs'"
    by (simp add: Let_def)
  have mu2: "maxUtility ?vs2 = (if u b > maxUtility vs then u b else maxUtility vs)"
    and mb2: "maxBehaviour ?vs2 = (if u b > maxUtility vs then b else maxBehaviour vs)"
    by simp_all
  note IH = Cons.IH [OF rest loop]
  show ?case
  proof (cases "\<forall>x \<in> set bs. u x \<le> maxUtility ?vs2")
    case True
    with IH have keep: "maxUtility vs' = maxUtility ?vs2" "maxBehaviour vs' = maxBehaviour ?vs2"
      by simp_all
    show ?thesis
    proof (cases "u b > maxUtility vs")
      case gt: True
      from True gt have le: "\<forall>j<length (b # bs). u ((b # bs) ! j) \<le> u b"
        by (auto simp: nth_Cons' mu2)
      from gt have neg: "\<not> (\<forall>x \<in> set (b # bs). u x \<le> maxUtility vs)" by auto
      from keep gt le
      have ex: "\<exists>i<length (b # bs). maxBehaviour vs' = (b # bs) ! i \<and>
              maxUtility vs' = u ((b # bs) ! i) \<and> maxUtility vs < u ((b # bs) ! i) \<and>
              (\<forall>j<length (b # bs). u ((b # bs) ! j) \<le> u ((b # bs) ! i)) \<and>
              (\<forall>j<i. u ((b # bs) ! j) < u ((b # bs) ! i))"
        by (intro exI [of _ 0]) (simp add: mu2 mb2)
      show ?thesis unfolding if_not_P [OF neg] by (rule ex)
    next
      case ngt: False
      with True have pos: "\<forall>x \<in> set (b # bs). u x \<le> maxUtility vs" by (simp add: mu2)
      from keep ngt show ?thesis unfolding if_P [OF pos] by (simp add: mu2 mb2)
    qed
  next
    case False
    with IH obtain i where i: "i < length bs" "maxBehaviour vs' = bs ! i"
      "maxUtility vs' = u (bs ! i)" "maxUtility ?vs2 < u (bs ! i)"
      "\<forall>j<length bs. u (bs ! j) \<le> u (bs ! i)" "\<forall>j<i. u (bs ! j) < u (bs ! i)"
      by auto
    from i(4) have big: "maxUtility vs < u (bs ! i)" and bb: "u b < u (bs ! i)"
      by (auto simp: mu2 split: if_splits)
    from i(1) big have neg: "\<not> (\<forall>x \<in> set (b # bs). u x \<le> maxUtility vs)"
      by (auto simp: not_le intro: bexI [of _ "bs ! i"])
    have le: "\<forall>j<length (b # bs). u ((b # bs) ! j) \<le> u ((b # bs) ! Suc i)"
      using i(5) bb by (auto simp: nth_Cons split: nat.splits)
    have lt: "\<forall>j<Suc i. u ((b # bs) ! j) < u ((b # bs) ! Suc i)"
      using i(6) bb by (auto simp: nth_Cons split: nat.splits)
    from i(1,2,3) big le lt
    have ex: "\<exists>k<length (b # bs). maxBehaviour vs' = (b # bs) ! k \<and>
              maxUtility vs' = u ((b # bs) ! k) \<and> maxUtility vs < u ((b # bs) ! k) \<and>
              (\<forall>j<length (b # bs). u ((b # bs) ! j) \<le> u ((b # bs) ! k)) \<and>
              (\<forall>j<k. u ((b # bs) ! j) < u ((b # bs) ! k))"
      by (intro exI [of _ "Suc i"]) simp
    show ?thesis unfolding if_not_P [OF neg] by (rule ex)
  qed
qed

lemma performed_after_assign:
  "performed ((h(self := (h self)\<lparr>performedMap := insert_or_assign t x (performedMap (h self))\<rparr>)) self) t
     = Some x"
  by (simp add: performed_def at_insert_or_assign)

text \<open>
  Let every candidate's utility be defined (\<open>u b\<close>), let at most one entry of the candidate
  list have utility strictly greater than 0, and let some candidate's utility be strictly
  greater than \<open>lowest\<close>, the initial \<open>maxUtility\<close>. Then \<open>perform(t, bs)\<close> returns and
  records as \<open>performed[t]\<close> the candidate \<open>bs ! i\<close> whose utility is maximal and strictly
  greater than that of every candidate before it: the first-seen candidate wins ties.
  The sampler \<open>draw\<close> does not occur in the result.
\<close>

lemma perform_deterministic_max:
  assumes "\<forall>b \<in> set bs. utility R (h self) b t = Some (u b)"
    and "\<exists>b \<in> set bs. lowest < u b"
    and "length (filter (\<lambda>b. 0 < u b) bs) \<le> 1"
  shows "\<exists>i<length bs.
           (\<forall>j<length bs. u (bs ! j) \<le> u (bs ! i)) \<and> (\<forall>j<i. u (bs ! j) < u (bs ! i)) \<and>
           perform draw R h self t bs =
             (Returned, h(self := (h self)\<lparr>performedMap :=
                           insert_or_assign t (bs ! i) (performedMap (h self))\<rparr>)) \<and>
           performed (snd (perform draw R h self t bs) self) t = Some (bs ! i)"
proof -
  let ?vs0 = "\<lparr>maxUtility = lowest, maxBehaviour = nullptr,
               positiveBehaviours = [], positiveUtilities = []\<rparr>"
  from perform_loop_positive [OF assms(1), of ?vs0]
  obtain vs' where loop: "perform_loop R (h self) t bs ?vs0 = Some vs'"
    and pu: "positiveUtilities vs' = map u (filter (\<lambda>b. 0 < u b) bs)"
    by auto
  from assms(2) have neg: "\<not> (\<forall>b \<in> set bs. u b \<le> maxUtility ?vs0)"
    by (auto simp: not_le)
  from perform_loop_max [OF assms(1) loop, unfolded if_not_P [OF neg]]
  obtain i where i: "i < length bs" "maxBehaviour vs' = bs ! i"
    "\<forall>j<length bs. u (bs ! j) \<le> u (bs ! i)" "\<forall>j<i. u (bs ! j) < u (bs ! i)"
    by auto
  from assms(3) pu have "length (positiveUtilities vs') \<le> 1" by simp
  with loop i(2) have p: "perform draw R h self t bs =
      (Returned, h(self := (h self)\<lparr>performedMap :=
                    insert_or_assign t (bs ! i) (performedMap (h self))\<rparr>))"
    by (simp add: perform_def)
  have "performed (snd (perform draw R h self t bs) self) t = Some (bs ! i)"
    by (simp add: p performed_def at_insert_or_assign)
  with i p show ?thesis by blast
qed

lemma perform_deterministic_max_example:
  "utility rel0 agent1 (Ptr 0) 0 = Some (- 2) \<and>
   utility rel0 agent1 (Ptr 2) 0 = Some (- 2) \<and>
   lowest < - 2 \<and>
   performed (snd (perform first_draw rel0 (uniform_store agent1) 0 0 [Ptr 0, Ptr 2]) 0) 0
     = Some (Ptr 0)"
proof -
  let ?u = "\<lambda>b. if b = Ptr (1::nat) then 6 else (- 2::real)"
  let ?bs = "[Ptr (0::nat), Ptr 2]"
  have ut: "utility rel0 agent1 (Ptr k) 0 = Some (if k = 1 then 6 else - 2)" for k
    by (simp add: utility_def contextualBehaviour_def contextualBeliefBehaviour_def
        beliefBehaviour_def contextualise_def heldBeliefs_def activation_def environment_def
        agent1_def rel0_def at_map_def std_exp_0)
  have h1: "\<forall>b \<in> set ?bs. utility rel0 (uniform_store agent1 0) b 0 = Some (?u b)"
    by (simp add: ut uniform_store_def)
  have low: "lowest < - 2" by (simp add: lowest_def)
  then have h2: "\<exists>b \<in> set ?bs. lowest < ?u b" by simp
  have h3: "length (filter (\<lambda>b. 0 < ?u b) ?bs) \<le> 1" by simp
  from perform_deterministic_max [where h = "uniform_store agent1" and self = 0 and u = ?u
      and bs = ?bs and R = rel0 and t = 0 and draw = first_draw, OF h1 h2 h3]
  obtain i where i: "i < length ?bs" "\<forall>j<i. ?u (?bs ! j) < ?u (?bs ! i)"
    "performed (snd (perform first_draw rel0 (uniform_store agent1) 0 0 ?bs) 0) 0
       = Some (?bs ! i)"
    by blast
  have "i = 0"
  proof (rule ccontr)
    assume "i \<noteq> 0"
    with i(1) have "i = 1" by simp
    with i(2) [rule_format, of 0] show False by simp
  qed
  with i(3) ut low show ?thesis by simp
qed

text \<open>
  Claim C3. For a non-empty candidate list with at most one candidate of utility strictly
  greater than 0, every utility being defined, \<open>perform(t, candidates)\<close> should record the
  candidate of maximum utility. Here the single candidate \<open>Ptr 0\<close> has utility
  \<open>std::exp(lowest * 0) * (1 * lowest) + 0 = lowest\<close>, which is not positive. The test
  \<open>ut > maxUtility\<close> against the initial \<open>maxUtility = lowest\<close> is false, \<open>maxBehaviour\<close>
  stays \<open>nullptr\<close>, and \<open>perform\<close> returns having recorded \<open>nullptr\<close>, not the candidate.
\<close>

theorem perform_misses_maximum_at_lowest:
  "utility rel_unit agent_low (Ptr 0) 0 = Some lowest \<and>
   lowest < 0 \<and>
   fst (perform first_draw rel_unit (uniform_store agent_low) 0 0 [Ptr 0]) = Returned \<and>
   performed (snd (perform first_draw rel_unit (uniform_store agent_low) 0 0 [Ptr 0]) 0) 0
     = Some nullptr \<and>
   performed (snd (perform first_draw rel_unit (uniform_store agent_low) 0 0 [Ptr 0]) 0) 0
     \<noteq> Some (Ptr 0)"
proof -
  have ut: "utility rel_unit agent_low (Ptr 0) 0 = Some lowest"
    by (simp add: utility_def contextualBehaviour_def contextualBeliefBehaviour_def
        beliefBehaviour_def contextualise_def heldBeliefs_def activation_def environment_def
        agent_low_def rel_unit_def at_map_def std_exp_0)
  have n: "\<not> 0 < lowest" using lowest_negative by simp
  have p: "perform first_draw rel_unit (uniform_store agent_low) 0 0 [Ptr 0] =
             (Returned, (uniform_store agent_low)(0 := agent_low\<lparr>performedMap :=
                          insert_or_assign 0 nullptr (performedMap agent_low)\<rparr>))"
    by (simp add: perform_def ut n uniform_store_def)
  show ?thesis
    by (simp add: p ut lowest_negative performed_def at_insert_or_assign)
qed

text \<open>
  Claim C7, amended. \<open>perform(t, bs)\<close> with an empty candidate list does not fail: the
  loop body never runs, \<open>positiveUtilities\<close> is empty, and the call returns after
  recording the null pointer as \<open>performed[t]\<close>, in place of any behaviour recorded there
  before.
\<close>

theorem perform_empty_records_nullptr:
  "perform draw R h self t [] =
     (Returned, h(self := (h self)\<lparr>performedMap :=
                   insert_or_assign t nullptr (performedMap (h self))\<rparr>)) \<and>
   performed (snd (perform draw R h self t []) self) t = Some nullptr"
  by (simp add: perform_def performed_def at_insert_or_assign)

theorem perform_empty_counterexample:
  "fst (perform first_draw rel3 no_agents 0 0 []) = Returned \<and>
   fst (perform first_draw rel3 no_agents 0 0 []) \<noteq> Thrown out_of_range \<and>
   performed (snd (perform first_draw rel3 no_agents 0 0 []) 0) 0 = Some nullptr"
  by (simp add: perform_def performed_def at_map_def no_agents_def uniform_store_def
      Agent_new_def)

section \<open>The tick\<close>

lemma tick_loop_performedMap:
  "performedMap (snd (tick_loop R h self t bels) a) = performedMap (h a)"
proof (induction bels arbitrary: h)
  case Nil
  show ?case by simp
next
  case (Cons b bels)
  obtain r h' where u: "updateActivation R h self t b = (r, h')" by (cases "updateActivation R h self t b")
  have pm: "performedMap (h' a) = performedMap (h a)"
    using updateActivation_performedMap [of R h self t b a] by (simp add: u)
  show ?case
  proof (cases r)
    case Returned
    with Cons.IH [of h'] pm u show ?thesis by simp
  next
    case (Thrown e)
    with pm u show ?thesis by simp
  qed
qed

lemma tick_loop_all_returned:
  assumes "\<forall>i<length bels.
             fst (updateActivation R
                    (foldl (\<lambda>h' b. snd (updateActivation R h' self t b)) h (take i bels))
                    self t (bels ! i)) = Returned"
  shows "tick_loop R h self t bels =
           (Returned, foldl (\<lambda>h' b. snd (updateActivation R h' self t b)) h bels)"
  using assms
proof (induction bels arbitrary: h)
  case Nil
  show ?case by simp
next
  case (Cons b bels)
  let ?step = "\<lambda>h' b. snd (updateActivation R h' self t b)"
  from Cons.prems [rule_format, of 0]
  have r: "fst (updateActivation R h self t b) = Returned" by simp
  have "\<forall>i<length bels.
          fst (updateActivation R (foldl ?step (?step h b) (take i bels)) self t (bels ! i)) = Returned"
  proof (intro allI impI)
    fix i assume "i < length bels"
    with Cons.prems [rule_format, of "Suc i"] show
      "fst (updateActivation R (foldl ?step (?step h b) (take i bels)) self t (bels ! i)) = Returned"
      by simp
  qed
  from Cons.IH [OF this] r show ?case
    by (cases "updateActivation R h self t b") simp
qed

lemma tick_loop_append:
  assumes "tick_loop R h self t pre = (Returned, h1)"
  shows "tick_loop R h self t (pre @ rest) = tick_loop R h1 self t rest"
  using assms
proof (induction pre arbitrary: h)
  case Nil
  then show ?case by simp
next
  case (Cons b pre)
  obtain r h' where u: "updateActivation R h self t b = (r, h')" by (cases "updateActivation R h self t b")
  show ?case
  proof (cases r)
    case Returned
    with Cons.prems u have "tick_loop R h' self t pre = (Returned, h1)" by simp
    from Cons.IH [OF this] Returned u show ?thesis by simp
  next
    case (Thrown e)
    with Cons.prems u show ?thesis by simp
  qed
qed

text \<open>
  Claim C8. \<open>tick(t, behs, bels)\<close> calls \<open>updateActivation(t, b)\<close> for the beliefs of \<open>bels\<close>
  in order, each on the state the previous call left. If all of them return, \<open>tick\<close> is
  \<open>perform(t, behs)\<close> on the state after the last one. If the calls for \<open>pre\<close> return and
  the next one throws, \<open>tick\<close> throws the same exception and leaves the state reached
  after \<open>pre\<close>: \<open>perform\<close> has not run, no \<open>performedMap\<close> has changed, and \<open>performed(t)\<close>
  is what it was.
\<close>

theorem tick_fail_fast:
  "((\<forall>i<length bels.
       fst (updateActivation R
              (foldl (\<lambda>h' b. snd (updateActivation R h' self t b)) h (take i bels))
              self t (bels ! i)) = Returned) \<longrightarrow>
     tick draw R h self t behs bels =
       perform draw R (foldl (\<lambda>h' b. snd (updateActivation R h' self t b)) h bels) self t behs)
   \<and>
   (\<forall>pre b post.
       bels = pre @ b # post \<and>
       (\<forall>i<length pre.
          fst (updateActivation R
                 (foldl (\<lambda>h' b. snd (updateActivation R h' self t b)) h (take i pre))
                 self t (pre ! i)) = Returned) \<and>
       fst (updateActivation R
              (foldl (\<lambda>h' b. snd (updateActivation R h' self t b)) h pre) self t b) = Thrown e \<longrightarrow>
     tick draw R h self t behs bels =
       (Thrown e, foldl (\<lambda>h' b. snd (updateActivation R h' self t b)) h pre) \<and>
     (\<forall>a. performedMap (snd (tick draw R h self t behs bels) a) = performedMap (h a)) \<and>
     performed (snd (tick draw R h self t behs bels) self) t = performed (h self) t)"
proof (intro conjI)
  show "(\<forall>i<length bels.
       fst (updateActivation R
              (foldl (\<lambda>h' b. snd (updateActivation R h' self t b)) h (take i bels))
              self t (bels ! i)) = Returned) \<longrightarrow>
     tick draw R h self t behs bels =
       perform draw R (foldl (\<lambda>h' b. snd (updateActivation R h' self t b)) h bels) self t behs"
  proof
    assume "\<forall>i<length bels.
       fst (updateActivation R
              (foldl (\<lambda>h' b. snd (updateActivation R h' self t b)) h (take i bels))
              self t (bels ! i)) = Returned"
    from tick_loop_all_returned [OF this]
    show "tick draw R h self t behs bels =
       perform draw R (foldl (\<lambda>h' b. snd (updateActivation R h' self t b)) h bels) self t behs"
      by (simp add: tick_def)
  qed
next
  let ?step = "\<lambda>h' b. snd (updateActivation R h' self t b)"
  show "\<forall>pre b post.
       bels = pre @ b # post \<and>
       (\<forall>i<length pre.
          fst (updateActivation R (foldl ?step h (take i pre)) self t (pre ! i)) = Returned) \<and>
       fst (updateActivation R (foldl ?step h pre) self t b) = Thrown e \<longrightarrow>
     tick draw R h self t behs bels = (Thrown e, foldl ?step h pre) \<and>
     (\<forall>a. performedMap (snd (tick draw R h self t behs bels) a) = performedMap (h a)) \<and>
     performed (snd (tick draw R h self t behs bels) self) t = performed (h self) t"
  proof (intro allI impI)
    fix pre b post
    assume asm: "bels = pre @ b # post \<and>
       (\<forall>i<length pre.
          fst (updateActivation R (foldl ?step h (take i pre)) self t (pre ! i)) = Returned) \<and>
       fst (updateActivation R (foldl ?step h pre) self t b) = Thrown e"
    then have bels: "bels = pre @ b # post"
      and ok: "\<forall>i<length pre.
          fst (updateActivation R (foldl ?step h (take i pre)) self t (pre ! i)) = Returned"
      and thr: "fst (updateActivation R (foldl ?step h pre) self t b) = Thrown e"
      by simp_all
    have "tick_loop R h self t bels = tick_loop R (foldl ?step h pre) self t (b # post)"
      unfolding bels by (rule tick_loop_append) (rule tick_loop_all_returned [OF ok])
    also have "\<dots> = (Thrown e, foldl ?step h pre)"
      using thr updateActivation_Thrown_state [OF thr]
      by (cases "updateActivation R (foldl ?step h pre) self t b") simp
    finally have loop: "tick_loop R h self t bels = (Thrown e, foldl ?step h pre)" .
    then have tk: "tick draw R h self t behs bels = tick_loop R h self t bels"
      by (simp add: tick_def)
    have res: "tick draw R h self t behs bels = (Thrown e, foldl ?step h pre)"
      by (simp add: tk loop)
    have pm: "\<forall>a. performedMap (snd (tick draw R h self t behs bels) a) = performedMap (h a)"
      by (simp add: tk tick_loop_performedMap)
    then have "performed (snd (tick draw R h self t behs bels) self) t = performed (h self) t"
      by (simp add: performed_def)
    with res pm
    show "tick draw R h self t behs bels = (Thrown e, foldl ?step h pre) \<and>
     (\<forall>a. performedMap (snd (tick draw R h self t behs bels) a) = performedMap (h a)) \<and>
     performed (snd (tick draw R h self t behs bels) self) t = performed (h self) t"
      by blast
  qed
qed

theorem tick_fail_fast_witness:
  "fst (updateActivation rel0 (uniform_store agent4) 0 1 1) = Returned \<and>
   fst (updateActivation rel0 (snd (updateActivation rel0 (uniform_store agent4) 0 1 1)) 0 1 2)
     = Thrown out_of_range \<and>
   tick first_draw rel0 (uniform_store agent4) 0 1 [Ptr 1] [1, 2] =
     (Thrown out_of_range, snd (updateActivation rel0 (uniform_store agent4) 0 1 1)) \<and>
   activation (snd (tick first_draw rel0 (uniform_store agent4) 0 1 [Ptr 1] [1, 2]) 0) 1 1
     = Some 4 \<and>
   performed (snd (tick first_draw rel0 (uniform_store agent4) 0 1 [Ptr 1] [1, 2]) 0) 1 = None"
proof -
  let ?h = "uniform_store agent4"
  let ?h1 = "?h(0 := agent4\<lparr>activationMap := [(0, [(1, 2)]), (1, [(1, 4)])]\<rparr>)"
  let ?step = "\<lambda>h' b. snd (updateActivation rel0 h' 0 1 b)"
  have u1: "updateActivation rel0 ?h 0 1 1 = (Returned, ?h1)"
    by (simp add: updateActivation_def contextualObserved_def contextualise_def heldBeliefs_def
        observed_def performed_def timeDelta_def activation_def emplace_def
        agent4_def rel0_def at_map_def uniform_store_def std_exp_0)
  have f1: "fst (updateActivation rel0 ?h 0 1 1) = Returned"
    and s1: "snd (updateActivation rel0 ?h 0 1 1) = ?h1"
    by (simp_all only: u1 fst_conv snd_conv)
  have u2: "fst (updateActivation rel0 ?h1 0 1 2) = Thrown out_of_range"
    by (simp add: updateActivation_def timeDelta_def agent4_def at_map_def)
  have pre: "\<forall>i<length [1::nat].
          fst (updateActivation rel0 (foldl ?step ?h (take i [1])) 0 1 ([1] ! i)) = Returned"
  proof (intro allI impI)
    fix i :: nat
    assume "i < length [1::nat]"
    then have "i = 0" by simp
    then show "fst (updateActivation rel0 (foldl ?step ?h (take i [1])) 0 1 ([1] ! i)) = Returned"
      by (simp only: take_0 foldl_Nil nth_Cons_0 f1)
  qed
  have step1: "foldl ?step ?h [1] = ?h1"
    by (simp only: foldl_Cons foldl_Nil s1)
  have hyp: "[1, 2] = [1] @ 2 # [] \<and>
       (\<forall>i<length [1::nat].
          fst (updateActivation rel0 (foldl ?step ?h (take i [1])) 0 1 ([1] ! i)) = Returned) \<and>
       fst (updateActivation rel0 (foldl ?step ?h [1]) 0 1 2) = Thrown out_of_range"
    using pre u2 by (simp only: step1 append_Cons append_Nil simp_thms)
  note concl = tick_fail_fast [of "[1, 2]" rel0 0 1 ?h first_draw "[Ptr 1]" out_of_range,
      THEN conjunct2, rule_format, OF hyp, unfolded step1]
  have t: "tick first_draw rel0 ?h 0 1 [Ptr 1] [1, 2] = (Thrown out_of_range, ?h1)"
    by (rule concl [THEN conjunct1])
  have p: "performed (snd (tick first_draw rel0 ?h 0 1 [Ptr 1] [1, 2]) 0) 1 = performed (?h 0) 1"
    by (rule concl [THEN conjunct2, THEN conjunct2])
  have "performed (?h 0) 1 = None"
    by (simp add: performed_def uniform_store_def agent4_def at_map_def)
  with p have p': "performed (snd (tick first_draw rel0 ?h 0 1 [Ptr 1] [1, 2]) 0) 1 = None"
    by simp
  have a: "activation (snd (tick first_draw rel0 ?h 0 1 [Ptr 1] [1, 2]) 0) 1 1 = Some 4"
    by (simp only: t snd_conv) (simp add: activation_def at_map_def)
  from f1 u2 t p' a show ?thesis by (simp only: s1 simp_thms)
qed

section \<open>The performed record\<close>




lemma perform_Returned:
  assumes "fst (perform draw R h self t bs) = Returned"
  shows "\<exists>x. snd (perform draw R h self t bs) =
           h(self := (h self)\<lparr>performedMap := insert_or_assign t x (performedMap (h self))\<rparr>)"
  using assms by (auto simp: perform_def split: option.splits if_splits)



















end
